theory Spec2Isabelle
  imports Main "HOL-Library.Word"
begin

section \<open>Data model\<close>

text \<open>
  The store is a MySQL database with the tables \<open>checks\<close> and \<open>pings\<close>.  A row of
  \<open>checks\<close> carries the columns named by the queries of the repository and of the worker;
  the field names are the column names (\<open>row_id\<close> is the column \<open>id\<close>).  Timestamps are
  whole seconds, a nullable column is an \<open>option\<close>, the two \<open>INT UNSIGNED\<close> columns
  are 32-bit words as in \<open>models.Check\<close>, and the status is the string the Go code compares.
\<close>

record checks_row =
  row_id :: int
  user_id :: int
  uuid :: string
  name :: string
  description :: "string option"
  expected_interval :: "32 word"
  grace_period :: "32 word"
  last_ping_at :: "int option"
  status :: string
  is_enabled :: bool
  deleted_at :: "int option"
  created_at :: int
  updated_at :: int

record pings_row =
  check_id :: int
  received_at :: int
  source_ip :: "string option"
  user_agent :: "string option"
  payload :: "string option"
  ping_created_at :: int

record database =
  checks :: "checks_row list"
  pings :: "pings_row list"

text \<open>
  What the database server decides during one unit of work: the ids of the rows of
  \<open>checks\<close> that other transactions hold locked, which statement fails, and the value
  of \<open>UTC_TIMESTAMP()\<close>, which the server evaluates once for each statement:
  \<open>now\<close> is its value in the first statement of the unit of work that reads the clock
  (the worker's \<open>SELECT\<close>, the recorder's \<open>UPDATE\<close>), \<open>update_now i\<close> its value in
  the worker's \<open>UPDATE\<close> of the check with id \<open>i\<close>, and \<open>insert_now\<close> its value in
  the recorder's \<open>INSERT\<close>.
\<close>

record db_env =
  now :: int
  update_now :: "int \<Rightarrow> int"
  insert_now :: int
  locked :: "int list"
  begin_fails :: bool
  select_fails :: bool
  scan_fails_at :: "nat option"
  rows_err :: bool
  update_fails :: "int list"
  insert_fails :: bool
  commit_fails :: bool

datatype error =
    ErrCheckNotFound
  | ErrBeginTx
  | ErrFindCheck
  | ErrUpdateCheck
  | ErrInsertPing
  | ErrCommitPing
  | ErrQueryTimedOut
  | ErrScanRow
  | ErrRowsIter
  | ErrUpdateStatus int
  | ErrCommitEmpty
  | ErrCommitBatch

section \<open>The timeout worker\<close>

record Config =
  PollInterval :: int
  BatchSize :: int

datatype log_entry =
    LogStarting
  | LogTick
  | LogPassError error
  | LogStopping
  | LogFound nat "(int \<times> string) list"
  | LogMarkedDown int
  | LogDispatched int
  | LogBatchDone nat

text \<open>The \<open>WHERE\<close> clause of the worker's query; a comparison with \<open>NULL\<close> is not true.\<close>

definition timedOut :: "int \<Rightarrow> checks_row \<Rightarrow> bool" where
  "timedOut t r \<longleftrightarrow>
     status r = ''up'' \<and> is_enabled r \<and> deleted_at r = None \<and>
     (case last_ping_at r of
        None \<Rightarrow> False
      | Some lp \<Rightarrow> lp < t - (int (unat (expected_interval r)) + int (unat (grace_period r))))"

definition ping_key :: "checks_row \<Rightarrow> int" where
  "ping_key r = (case last_ping_at r of None \<Rightarrow> 0 | Some lp \<Rightarrow> lp)"

text \<open>
  \<open>SELECT id, uuid FROM checks WHERE ... ORDER BY last_ping_at ASC LIMIT ? FOR UPDATE SKIP LOCKED\<close>:
  the rows that satisfy the clause and that no other transaction holds locked, oldest ping
  first (rows with equal keys in table order), cut at the limit.
\<close>

definition claimable :: "db_env \<Rightarrow> checks_row \<Rightarrow> bool" where
  "claimable e r \<longleftrightarrow> timedOut (now e) r \<and> row_id r \<notin> set (locked e)"

definition timedOutRows :: "nat \<Rightarrow> db_env \<Rightarrow> checks_row list \<Rightarrow> checks_row list" where
  "timedOutRows B e cs = take B (sort_key ping_key (filter (claimable e) cs))"

definition timedOutQuery :: "nat \<Rightarrow> db_env \<Rightarrow> checks_row list \<Rightarrow> (int \<times> string) list" where
  "timedOutQuery B e cs = map (\<lambda>r. (row_id r, uuid r)) (timedOutRows B e cs)"

text \<open>\<open>UPDATE checks SET status = 'down', updated_at = UTC_TIMESTAMP() WHERE id = ?\<close>\<close>

definition downRow :: "db_env \<Rightarrow> checks_row \<Rightarrow> checks_row" where
  "downRow e r = r\<lparr>status := ''down'', updated_at := update_now e (row_id r)\<rparr>"

definition setDown :: "db_env \<Rightarrow> int \<Rightarrow> checks_row list \<Rightarrow> checks_row list" where
  "setDown e i cs = map (\<lambda>r. if row_id r = i then downRow e r else r) cs"

text \<open>
  The loop over \<open>checkIDsToProcess\<close>.  After a successful update the source writes two
  log lines; the call of a notification dispatcher between them is a comment marked TODO
  (\<open>TimeoutChecker\<close> has no dispatcher), so the list of dispatcher calls made so far,
  \<open>calls\<close>, passes through the loop as it came.
\<close>

fun markDown ::
  "db_env \<Rightarrow> int list \<Rightarrow> checks_row list \<Rightarrow> log_entry list \<Rightarrow> int list
     \<Rightarrow> (error + checks_row list) \<times> log_entry list \<times> int list" where
  "markDown e [] cs lg calls = (Inr cs, lg, calls)"
| "markDown e (i # ids) cs lg calls =
     (if i \<in> set (update_fails e) then (Inl (ErrUpdateStatus i), lg, calls)
      else markDown e ids (setDown e i cs) (lg @ [LogMarkedDown i, LogDispatched i]) calls)"

text \<open>
  One scan pass.  The result is the returned error (if any), the database after the unit
  of work (the database before it unless the commit succeeded), the lines logged and the
  dispatcher calls made.  A negative limit is rejected by the server, so the query fails.
\<close>

definition processTimeouts ::
  "Config \<Rightarrow> db_env \<Rightarrow> database \<Rightarrow> error option \<times> database \<times> log_entry list \<times> int list" where
  "processTimeouts cfg e db =
     (if begin_fails e then (Some ErrBeginTx, db, [], [])
      else if select_fails e \<or> BatchSize cfg < 0 then (Some ErrQueryTimedOut, db, [], [])
      else
        let found = timedOutQuery (nat (BatchSize cfg)) e (checks db) in
        if (case scan_fails_at e of None \<Rightarrow> False | Some k \<Rightarrow> k < length found)
          then (Some ErrScanRow, db, [], [])
        else if rows_err e then (Some ErrRowsIter, db, [], [])
        else if length found = 0
          then (if commit_fails e then (Some ErrCommitEmpty, db, [], [])
                else (None, db, [], []))
        else
          (case markDown e (map fst found) (checks db) [LogFound (length found) found] [] of
             (Inl err, lg, calls) \<Rightarrow> (Some err, db, lg, calls)
           | (Inr cs, lg, calls) \<Rightarrow>
               if commit_fails e then (Some ErrCommitBatch, db, lg, calls)
               else (None, db\<lparr>checks := cs\<rparr>, lg @ [LogBatchDone (length found)], calls)))"

text \<open>
  \<open>processTimeouts\<close> hands the context of \<open>Start\<close> to \<open>BeginTx\<close>, to
  \<open>QueryContext\<close> and to every \<open>ExecContext\<close>.  A call of \<open>database/sql\<close> that is
  given a context that is done returns the context's error, and so does \<open>Commit\<close> on a
  transaction begun with it.  Number the database calls of a pass: 0 for \<open>BeginTx\<close>,
  1 for \<open>QueryContext\<close>, \<open>2 + j\<close> for the \<open>ExecContext\<close> of the \<open>j\<close>-th claimed
  id (an id, the primary key, occurs once among them), and the next number for
  \<open>Commit\<close>.  \<open>under_ctx (Some k) cfg e db\<close> is what the pass meets when the
  context is done from call \<open>k\<close> on and the server otherwise behaves as \<open>e\<close>;
  \<open>under_ctx None cfg e db\<close> when the context is not done during the pass.
\<close>

definition under_ctx :: "nat option \<Rightarrow> Config \<Rightarrow> db_env \<Rightarrow> database \<Rightarrow> db_env" where
  "under_ctx c cfg e db =
     (case c of
        None \<Rightarrow> e
      | Some k \<Rightarrow>
          let ids = map fst (timedOutQuery (nat (BatchSize cfg)) e (checks db)) in
          e\<lparr>begin_fails := begin_fails e \<or> k = 0,
            select_fails := select_fails e \<or> k \<le> 1,
            update_fails := update_fails e @ drop (k - 2) ids,
            commit_fails := commit_fails e \<or> k \<le> 2 + length ids\<rparr>)"

text \<open>
  \<open>Start\<close>: the \<open>select\<close> loop over the ticker and the context.  The schedule is the
  sequence of channel receptions the \<open>select\<close> makes.  \<open>Tick e c\<close> is a tick: \<open>e\<close>
  is what the database does during its pass, and \<open>c = Some k\<close> says that the context
  is cancelled while that pass runs, before its database call \<open>k\<close> (\<open>None\<close>: it is
  not cancelled during that pass).  \<open>Done\<close> is the reception of \<open>ctx.Done()\<close>.
  \<open>cancelled\<close> says whether the context is already done when the \<open>select\<close> is
  reached: a tick received then runs its pass with a context that is done from the first
  call on.  The last component of the result says whether \<open>Start\<close> has returned; when
  the schedule is used up without \<open>Done\<close> the loop is waiting in \<open>select\<close>.
  \<open>time.NewTicker\<close> panics on an interval that is not positive.
\<close>

datatype event = Tick db_env "nat option" | Done

datatype panic = NonPositiveInterval

definition ctx_in_pass :: "bool \<Rightarrow> nat option \<Rightarrow> nat option" where
  "ctx_in_pass cancelled c = (if cancelled then Some 0 else c)"

fun select_loop ::
  "Config \<Rightarrow> event list \<Rightarrow> bool \<Rightarrow> database \<Rightarrow> log_entry list
     \<Rightarrow> database \<times> log_entry list \<times> bool" where
  "select_loop cfg [] cancelled db lg = (db, lg, False)"
| "select_loop cfg (Done # es) cancelled db lg = (db, lg @ [LogStopping], True)"
| "select_loop cfg (Tick e c # es) cancelled db lg =
     (case processTimeouts cfg (under_ctx (ctx_in_pass cancelled c) cfg e db) db of
        (err, db', plg, calls) \<Rightarrow>
          select_loop cfg es (cancelled \<or> c \<noteq> None) db'
            (lg @ [LogTick] @ plg @ (case err of None \<Rightarrow> [] | Some x \<Rightarrow> [LogPassError x])))"

definition Start ::
  "Config \<Rightarrow> event list \<Rightarrow> database \<Rightarrow> panic + database \<times> log_entry list \<times> bool" where
  "Start cfg es db =
     (if PollInterval cfg \<le> 0 then Inl NonPositiveInterval
      else Inr (select_loop cfg es False db [LogStarting]))"

section \<open>The ping recorder\<close>

text \<open>
  \<open>SELECT id, status FROM checks WHERE uuid = ? AND deleted_at IS NULL LIMIT 1\<close>:
  the first row in table order with that token that is not soft-deleted.
\<close>

definition findLive :: "string \<Rightarrow> checks_row list \<Rightarrow> checks_row option" where
  "findLive u cs = List.find (\<lambda>r. uuid r = u \<and> deleted_at r = None) cs"

text \<open>
  \<open>UPDATE checks SET last_ping_at = UTC_TIMESTAMP(), status = ?, updated_at = UTC_TIMESTAMP()
  WHERE id = ?\<close>
\<close>

definition touchRow :: "db_env \<Rightarrow> string \<Rightarrow> checks_row \<Rightarrow> checks_row" where
  "touchRow e newStatus c =
     c\<lparr>last_ping_at := Some (now e), status := newStatus, updated_at := now e\<rparr>"

definition touch :: "db_env \<Rightarrow> string \<Rightarrow> int \<Rightarrow> checks_row list \<Rightarrow> checks_row list" where
  "touch e newStatus checkID cs =
     map (\<lambda>c. if row_id c = checkID then touchRow e newStatus c else c) cs"

definition newPing :: "db_env \<Rightarrow> int \<Rightarrow> string option \<Rightarrow> string option \<Rightarrow> pings_row" where
  "newPing e checkID sourceIP userAgent =
     \<lparr>check_id = checkID, received_at = insert_now e, source_ip = sourceIP,
      user_agent = userAgent, payload = None, ping_created_at = insert_now e\<rparr>"

text \<open>
  \<open>RecordPing\<close>: the returned error (if any) and the database after the call.  Every
  error return leaves the transaction to the deferred rollback.  The log lines of the
  repository are not part of the model.
\<close>

definition RecordPing ::
  "db_env \<Rightarrow> string \<Rightarrow> string option \<Rightarrow> string option \<Rightarrow> database
     \<Rightarrow> error option \<times> database" where
  "RecordPing e u sourceIP userAgent db =
     (if begin_fails e then (Some ErrBeginTx, db)
      else if select_fails e then (Some ErrFindCheck, db)
      else
        (case findLive u (checks db) of
           None \<Rightarrow> (Some ErrCheckNotFound, db)
         | Some r \<Rightarrow>
             let checkID = row_id r;
                 currentStatus = status r;
                 newStatus = (if currentStatus = ''down'' \<or> currentStatus = ''new''
                              then ''up'' else currentStatus)
             in
               if checkID \<in> set (update_fails e) then (Some ErrUpdateCheck, db)
               else if insert_fails e then (Some ErrInsertPing, db)
               else if commit_fails e then (Some ErrCommitPing, db)
               else (None, db\<lparr>checks := touch e newStatus checkID (checks db),
                               pings := pings db @ [newPing e checkID sourceIP userAgent]\<rparr>)))"

text \<open>\<open>sql.NullString{String: s, Valid: s != ""}\<close>\<close>

definition nullString :: "string \<Rightarrow> string option" where
  "nullString s = (if s \<noteq> [] then Some s else None)"

text \<open>\<open>HandlePing\<close>: the HTTP status of the answer and the database after the request.\<close>

definition HandlePing ::
  "db_env \<Rightarrow> string \<Rightarrow> string \<Rightarrow> string \<Rightarrow> database \<Rightarrow> nat \<times> database" where
  "HandlePing e u clientIP userAgent db =
     (if u = [] then (400, db)
      else
        (case RecordPing e u (nullString clientIP) (nullString userAgent) db of
           (Some err, db') \<Rightarrow> if err = ErrCheckNotFound then (404, db') else (500, db')
         | (None, db') \<Rightarrow> (200, db')))"

section \<open>Creating a check\<close>

text \<open>\<open>models.Check\<close> and the decoded body of a creation request.\<close>

record Check =
  ID :: int
  UserID :: int
  UUID :: string
  Name :: string
  Description :: "string option"
  ExpectedInterval :: "32 word"
  GracePeriod :: "32 word"
  LastPingAt :: "int option"
  Status :: string
  IsEnabled :: bool
  CreatedAt :: int
  UpdatedAt :: int

record CreateCheckRequest =
  req_Name :: string
  req_Description :: "string option"
  req_ExpectedInterval :: "32 word"
  req_GracePeriod :: "32 word option"
  req_IsEnabled :: "bool option"
  req_Status :: "string option"

text \<open>
  What the server decides for the \<open>INSERT\<close>: the clock, whether the statement fails (a
  duplicate entry, error 1062, or anything else; either way with the text of the driver's
  error), whether \<open>LastInsertId\<close> fails (with the text of its error), and the generated
  id.
\<close>

datatype exec_error = DuplicateEntry string | OtherExecError string

record create_env =
  create_now :: int
  exec_err :: "exec_error option"
  last_id_err :: "string option"
  new_id :: int

text \<open>
  The errors \<open>Create\<close> returns and the text of each (\<open>err.Error()\<close>); the three that
  wrap an error of the driver end in its text.
\<close>

datatype create_error =
    ErrUserIDRequired
  | ErrUUIDRequired
  | ErrNameRequired
  | ErrIntervalRequired
  | ErrAlreadyExists string
  | ErrCreateCheck string
  | ErrNewCheckID string

fun errorText :: "create_error \<Rightarrow> string" where
  "errorText ErrUserIDRequired = ''UserID is required to create a check''"
| "errorText ErrUUIDRequired = ''UUID is required to create a check''"
| "errorText ErrNameRequired = ''Name is required to create a check''"
| "errorText ErrIntervalRequired = ''ExpectedInterval must be greater than zero''"
| "errorText (ErrAlreadyExists t) = ''check with this UUID already exists: '' @ t"
| "errorText (ErrCreateCheck t) = ''database error creating check: '' @ t"
| "errorText (ErrNewCheckID t) = ''failed to retrieve new check ID after insert: '' @ t"

text \<open>\<open>strings.Contains\<close>\<close>

fun Contains :: "string \<Rightarrow> string \<Rightarrow> bool" where
  "Contains [] substr = (substr = [])"
| "Contains (c # s) substr =
     (take (length substr) (c # s) = substr \<or> Contains s substr)"

text \<open>
  \<open>Create\<close> of the repository.  The caller always passes the address of a struct, so
  the nil test has no branch here.  The statement binds the local \<open>isEnabled\<close>, which is
  \<open>true\<close>; \<open>last_ping_at\<close> and \<open>deleted_at\<close> take the column default \<open>NULL\<close>.
  The insert is not in a transaction: when \<open>LastInsertId\<close> fails the row stays.
\<close>

definition Create ::
  "create_env \<Rightarrow> Check \<Rightarrow> database \<Rightarrow> (create_error + Check) \<times> database" where
  "Create ce check db =
     (if UserID check \<le> 0 then (Inl ErrUserIDRequired, db)
      else if UUID check = [] then (Inl ErrUUIDRequired, db)
      else if Name check = [] then (Inl ErrNameRequired, db)
      else if ExpectedInterval check \<le> 0 then (Inl ErrIntervalRequired, db)
      else
        let status' = (if Status check = [] then ''new'' else Status check);
            isEnabled = True
        in
          (case exec_err ce of
             Some (DuplicateEntry t) \<Rightarrow> (Inl (ErrAlreadyExists t), db)
           | Some (OtherExecError t) \<Rightarrow> (Inl (ErrCreateCheck t), db)
           | None \<Rightarrow>
               let db' = db\<lparr>checks := checks db @
                     [\<lparr>row_id = new_id ce, user_id = UserID check, uuid = UUID check,
                       name = Name check, description = Description check,
                       expected_interval = ExpectedInterval check,
                       grace_period = GracePeriod check, last_ping_at = None,
                       status = status', is_enabled = isEnabled, deleted_at = None,
                       created_at = create_now ce, updated_at = create_now ce\<rparr>]\<rparr>
               in
                 (case last_id_err ce of
                    Some t \<Rightarrow> (Inl (ErrNewCheckID t), db')
                  | None \<Rightarrow> (Inr (check\<lparr>ID := new_id ce, Status := status'\<rparr>), db'))))"

text \<open>
  \<open>CreateCheck\<close> of the HTTP layer: the status of the answer, the check of the answer's
  body (on 201) and the database after the request.  The binding tags reject an empty
  name and a zero interval; \<open>userID\<close> is what the authentication middleware left in the
  context and \<open>newUUID\<close> what \<open>uuid.NewString()\<close> returned; the zero values of the
  struct literal are written out.  No error of \<open>Create\<close> is or wraps
  \<open>ErrCheckNotFound\<close>, so the handler's first test of the error, which would answer
  404, is never true; the second looks for \<open>already exists\<close> in the text of the error.
\<close>

definition CreateCheck ::
  "create_env \<Rightarrow> int option \<Rightarrow> string \<Rightarrow> CreateCheckRequest \<Rightarrow> database
     \<Rightarrow> nat \<times> Check option \<times> database" where
  "CreateCheck ce userID newUUID req db =
     (if req_Name req = [] \<or> req_ExpectedInterval req = 0 then (400, None, db)
      else
        (case userID of
           None \<Rightarrow> (500, None, db)
         | Some uid \<Rightarrow>
             let newCheck = \<lparr>ID = 0, UserID = uid, UUID = newUUID, Name = req_Name req,
                   Description = None, ExpectedInterval = req_ExpectedInterval req,
                   GracePeriod = 0, LastPingAt = None, Status = ''new'', IsEnabled = True,
                   CreatedAt = 0, UpdatedAt = 0\<rparr>;
                 newCheck = (case req_Description req of
                     None \<Rightarrow> newCheck | Some d \<Rightarrow> newCheck\<lparr>Description := Some d\<rparr>);
                 newCheck = (case req_GracePeriod req of
                     None \<Rightarrow> newCheck | Some g \<Rightarrow> newCheck\<lparr>GracePeriod := g\<rparr>);
                 newCheck = (case req_IsEnabled req of
                     None \<Rightarrow> newCheck | Some b \<Rightarrow> newCheck\<lparr>IsEnabled := b\<rparr>);
                 newCheck = (case req_Status req of
                     None \<Rightarrow> newCheck | Some s \<Rightarrow> newCheck\<lparr>Status := s\<rparr>)
             in
               (case Create ce newCheck db of
                  (Inl err, db') \<Rightarrow>
                    if Contains (errorText err) ''already exists'' then (409, None, db')
                    else (500, None, db')
                | (Inr created, db') \<Rightarrow> (201, Some created, db'))))"

section \<open>Reading the result of a pass\<close>

definition pass_err :: "error option \<times> database \<times> log_entry list \<times> int list \<Rightarrow> error option" where
  "pass_err res = fst res"

definition pass_db :: "error option \<times> database \<times> log_entry list \<times> int list \<Rightarrow> database" where
  "pass_db res = fst (snd res)"

definition pass_log :: "error option \<times> database \<times> log_entry list \<times> int list \<Rightarrow> log_entry list" where
  "pass_log res = fst (snd (snd res))"

definition pass_calls :: "error option \<times> database \<times> log_entry list \<times> int list \<Rightarrow> int list" where
  "pass_calls res = snd (snd (snd res))"

text \<open>The check ids of the lines \<open>Dispatched 'down' notification task for check ID ...\<close>.\<close>

fun dispatchLines :: "log_entry list \<Rightarrow> int list" where
  "dispatchLines [] = []"
| "dispatchLines (LogDispatched i # lg) = i # dispatchLines lg"
| "dispatchLines (x # lg) = dispatchLines lg"

text \<open>The two lines the update loop logs for each id it has updated.\<close>

definition downLines :: "int list \<Rightarrow> log_entry list" where
  "downLines ids = concat (map (\<lambda>i. [LogMarkedDown i, LogDispatched i]) ids)"

text \<open>
  The selection predicate in the words of the specification:
  \<open>status = 'up' AND is_enabled = true AND not soft-deleted AND
  now_utc >= last_ping_at + expected_interval + grace_period\<close>.
\<close>

definition spec_overdue :: "int \<Rightarrow> checks_row \<Rightarrow> bool" where
  "spec_overdue t r \<longleftrightarrow>
     status r = ''up'' \<and> is_enabled r = True \<and> deleted_at r = None \<and>
     (case last_ping_at r of
        None \<Rightarrow> False
      | Some lp \<Rightarrow> t \<ge> lp + int (unat (expected_interval r)) + int (unat (grace_period r)))"

section \<open>Reading a run of the loop\<close>

definition loop_db :: "database \<times> log_entry list \<times> bool \<Rightarrow> database" where
  "loop_db res = fst res"

definition loop_log :: "database \<times> log_entry list \<times> bool \<Rightarrow> log_entry list" where
  "loop_log res = fst (snd res)"

definition loop_returned :: "database \<times> log_entry list \<times> bool \<Rightarrow> bool" where
  "loop_returned res = snd (snd res)"

text \<open>The ticks received before \<open>ctx.Done()\<close> is received.\<close>

fun ticksBefore :: "event list \<Rightarrow> (db_env \<times> nat option) list" where
  "ticksBefore [] = []"
| "ticksBefore (Done # es) = []"
| "ticksBefore (Tick e c # es) = (e, c) # ticksBefore es"

text \<open>
  Whole passes one after the other, each under the context as it is during that pass:
  the database they leave and the errors they return.
\<close>

fun runPasses :: "Config \<Rightarrow> bool \<Rightarrow> (db_env \<times> nat option) list \<Rightarrow> database \<Rightarrow> database" where
  "runPasses cfg cancelled [] db = db"
| "runPasses cfg cancelled ((e, c) # ts) db =
     runPasses cfg (cancelled \<or> c \<noteq> None) ts
       (pass_db (processTimeouts cfg (under_ctx (ctx_in_pass cancelled c) cfg e db) db))"

fun passErrors :: "Config \<Rightarrow> bool \<Rightarrow> (db_env \<times> nat option) list \<Rightarrow> database \<Rightarrow> error list" where
  "passErrors cfg cancelled [] db = []"
| "passErrors cfg cancelled ((e, c) # ts) db =
     (case pass_err (processTimeouts cfg (under_ctx (ctx_in_pass cancelled c) cfg e db) db) of
        None \<Rightarrow> [] | Some x \<Rightarrow> [x]) @
     passErrors cfg (cancelled \<or> c \<noteq> None) ts
       (pass_db (processTimeouts cfg (under_ctx (ctx_in_pass cancelled c) cfg e db) db))"

text \<open>The errors of the lines \<open>Error processing timeouts: ...\<close>.\<close>

fun loggedErrors :: "log_entry list \<Rightarrow> error list" where
  "loggedErrors [] = []"
| "loggedErrors (LogPassError x # lg) = x # loggedErrors lg"
| "loggedErrors (y # lg) = loggedErrors lg"

section \<open>Reading the result of a ping\<close>

text \<open>The status \<open>RecordPing\<close> writes for a check whose status was \<open>s\<close>.\<close>

definition ping_status :: "string \<Rightarrow> string" where
  "ping_status s = (if s = ''new'' \<or> s = ''down'' then ''up'' else s)"

text \<open>No statement of a ping on check \<open>i\<close> fails.\<close>

definition no_faults :: "db_env \<Rightarrow> int \<Rightarrow> bool" where
  "no_faults e i \<longleftrightarrow>
     \<not> begin_fails e \<and> \<not> select_fails e \<and> i \<notin> set (update_fails e) \<and>
     \<not> insert_fails e \<and> \<not> commit_fails e"

section \<open>Sample data\<close>

text \<open>
  A database server that locks nothing and fails nowhere, and whose clock reads \<open>t\<close> in
  every statement of the unit of work.
\<close>

definition quiet :: "int \<Rightarrow> db_env" where
  "quiet t = \<lparr>now = t, update_now = (\<lambda>i. t), insert_now = t, locked = [],
     begin_fails = False, select_fails = False,
     scan_fails_at = None, rows_err = False, update_fails = [], insert_fails = False,
     commit_fails = False\<rparr>"

definition failing_update :: "int \<Rightarrow> int \<Rightarrow> db_env" where
  "failing_update t i = (quiet t)\<lparr>update_fails := [i]\<rparr>"

definition sample_row :: "int \<Rightarrow> string \<Rightarrow> int option \<Rightarrow> 32 word \<Rightarrow> string \<Rightarrow> checks_row" where
  "sample_row i u lp iv st = \<lparr>row_id = i, user_id = 1, uuid = u, name = ''job'',
     description = None, expected_interval = iv, grace_period = 0, last_ping_at = lp,
     status = st, is_enabled = True, deleted_at = None, created_at = 0, updated_at = 0\<rparr>"

definition cfg10 :: Config where
  "cfg10 = \<lparr>PollInterval = 30, BatchSize = 10\<rparr>"

definition cfg1 :: Config where
  "cfg1 = \<lparr>PollInterval = 30, BatchSize = 1\<rparr>"

definition db_one :: database where
  "db_one = \<lparr>checks = [sample_row 1 ''a'' (Some 0) 60 ''up''], pings = []\<rparr>"

definition db_two :: database where
  "db_two = \<lparr>checks = [sample_row 1 ''a'' (Some 10) 5 ''up'',
                         sample_row 2 ''c'' (Some 5) 100 ''up''],
              pings = []\<rparr>"

definition db_fresh :: database where
  "db_fresh = \<lparr>checks = [sample_row 1 ''a'' (Some 150) 60 ''up'',
                           sample_row 2 ''b'' None 60 ''new''],
                pings = []\<rparr>"

definition check_A :: checks_row where
  "check_A = sample_row 1 ''a'' (Some 40) 60 ''up''"

definition check_B :: checks_row where
  "check_B = sample_row 2 ''b'' (Some 130) 60 ''up''"

definition schedule :: "event list" where
  "schedule = [Tick (failing_update 200 1) None, Tick (quiet 230) None, Done,
               Tick (quiet 260) None]"

definition schedule_cancel :: "event list" where
  "schedule_cancel = [Tick (quiet 200) (Some 2), Done]"

definition db_down :: database where
  "db_down = \<lparr>checks = [sample_row 1 ''a'' (Some 0) 60 ''down'',
                          sample_row 2 ''b'' None 60 ''new''],
               pings = []\<rparr>"

definition db_mixed :: database where
  "db_mixed = \<lparr>checks = [sample_row 1 ''a'' (Some 0) 60 ''down'',
                           sample_row 2 ''b'' (Some 0) 60 ''up''],
                pings = []\<rparr>"

definition db_deleted :: database where
  "db_deleted = \<lparr>checks = [(sample_row 6 ''f'' (Some 0) 60 ''up'')\<lparr>deleted_at := Some 50\<rparr>],
                  pings = []\<rparr>"

definition db_empty :: database where
  "db_empty = \<lparr>checks = [], pings = []\<rparr>"

definition create_ok :: create_env where
  "create_ok = \<lparr>create_now = 1000, exec_err = None, last_id_err = None, new_id = 7\<rparr>"

definition req_disabled :: CreateCheckRequest where
  "req_disabled = \<lparr>req_Name = ''nightly'', req_Description = None, req_ExpectedInterval = 60,
     req_GracePeriod = None, req_IsEnabled = Some False, req_Status = None\<rparr>"

lemmas sample_defs = cfg10_def cfg1_def db_one_def db_two_def db_fresh_def check_A_def
  check_B_def sample_row_def quiet_def failing_update_def

lemmas query_defs = timedOutQuery_def timedOutRows_def claimable_def timedOut_def ping_key_def

lemmas pass_defs = processTimeouts_def pass_err_def pass_db_def pass_log_def pass_calls_def
  setDown_def downRow_def

section \<open>The query of a scan pass\<close>

lemma timedOutRows_sorted: "sorted (map ping_key (timedOutRows B e cs))"
  unfolding timedOutRows_def by (simp add: take_map[symmetric] sorted_wrt_take)

lemma timedOutRows_subset: "r \<in> set (timedOutRows B e cs) \<Longrightarrow> r \<in> set cs \<and> claimable e r"
  unfolding timedOutRows_def by (auto dest: in_set_takeD)

lemma timedOutRows_length:
  "length (timedOutRows B e cs) = min B (length (filter (claimable e) cs))"
  unfolding timedOutRows_def by (simp add: min.commute)


lemma timedOutRows_oldest:
  assumes "r \<in> set cs" "claimable e r" "r \<notin> set (timedOutRows B e cs)"
    and "s \<in> set (timedOutRows B e cs)"
  shows "ping_key s \<le> ping_key r"
proof -
  let ?xs = "sort_key ping_key (filter (claimable e) cs)"
  have "r \<in> set ?xs" using assms(1,2) by simp
  then have "r \<in> set (take B ?xs) \<union> set (drop B ?xs)"
    by (metis append_take_drop_id set_append)
  with assms(3) have r: "r \<in> set (drop B ?xs)" by (simp add: timedOutRows_def)
  have s: "s \<in> set (take B ?xs)" using assms(4) by (simp add: timedOutRows_def)
  have "sorted (map ping_key (take B ?xs @ drop B ?xs))" by simp
  then show ?thesis using r s unfolding map_append sorted_append by auto
qed

lemma distinct_ids_timedOutRows:
  assumes "distinct (map row_id cs)"
  shows "distinct (map row_id (timedOutRows B e cs))"
proof -
  have "distinct (map row_id (filter (claimable e) cs))"
    using assms by (rule distinct_map_filter)
  then have "distinct (map row_id (sort_key ping_key (filter (claimable e) cs)))"
    by (simp add: distinct_map)
  then have "distinct (take B (map row_id (sort_key ping_key (filter (claimable e) cs))))"
    by (rule distinct_take)
  then show ?thesis by (simp add: timedOutRows_def take_map)
qed


lemma map_fst_timedOutQuery: "map fst (timedOutQuery B e cs) = map row_id (timedOutRows B e cs)"
  by (simp add: timedOutQuery_def comp_def)

lemma timedOutQuery_Nil: "timedOutQuery B e cs = [] \<longleftrightarrow> timedOutRows B e cs = []"
  by (simp add: timedOutQuery_def)

lemma length_timedOutQuery: "length (timedOutQuery B e cs) = length (timedOutRows B e cs)"
  by (simp add: timedOutQuery_def)

text \<open>
  C2, as the code has it.  The rows a pass selects are rows of the table with status
  \<open>up\<close>, enabled, not soft-deleted, not locked by another transaction, pinged at least
  once and with \<open>last_ping_at + expected_interval + grace_period\<close> strictly before the
  clock; they come oldest ping first; they are as many as the limit allows; and a row
  that qualifies but is left out was pinged no earlier than any selected row.
\<close>

theorem scan_selection:
  "(\<forall>r \<in> set (timedOutRows B e cs).
      r \<in> set cs \<and> status r = ''up'' \<and> is_enabled r \<and> deleted_at r = None \<and>
      row_id r \<notin> set (locked e) \<and>
      (\<exists>lp. last_ping_at r = Some lp \<and>
         lp + int (unat (expected_interval r)) + int (unat (grace_period r)) < now e)) \<and>
   sorted (map ping_key (timedOutRows B e cs)) \<and>
   length (timedOutRows B e cs) = min B (length (filter (claimable e) cs)) \<and>
   (\<forall>r \<in> set cs. claimable e r \<and> r \<notin> set (timedOutRows B e cs) \<longrightarrow>
      (\<forall>s \<in> set (timedOutRows B e cs). ping_key s \<le> ping_key r))"
proof -
  have sel: "\<forall>r \<in> set (timedOutRows B e cs).
      r \<in> set cs \<and> status r = ''up'' \<and> is_enabled r \<and> deleted_at r = None \<and>
      row_id r \<notin> set (locked e) \<and>
      (\<exists>lp. last_ping_at r = Some lp \<and>
         lp + int (unat (expected_interval r)) + int (unat (grace_period r)) < now e)"
  proof
    fix r assume "r \<in> set (timedOutRows B e cs)"
    then have "r \<in> set cs" "claimable e r" using timedOutRows_subset by auto
    then show "r \<in> set cs \<and> status r = ''up'' \<and> is_enabled r \<and> deleted_at r = None \<and>
      row_id r \<notin> set (locked e) \<and>
      (\<exists>lp. last_ping_at r = Some lp \<and>
         lp + int (unat (expected_interval r)) + int (unat (grace_period r)) < now e)"
      by (auto simp: claimable_def timedOut_def split: option.splits)
  qed
  have old: "\<forall>r \<in> set cs. claimable e r \<and> r \<notin> set (timedOutRows B e cs) \<longrightarrow>
      (\<forall>s \<in> set (timedOutRows B e cs). ping_key s \<le> ping_key r)"
    using timedOutRows_oldest by blast
  from sel old timedOutRows_sorted timedOutRows_length show ?thesis by blast
qed

text \<open>
  Witness for C2: check A is overdue by 100 seconds and check B by 10; with a batch of
  one the pass selects A and leaves B, which qualifies, for a later pass.
\<close>

theorem scan_selection_witness:
  "timedOutRows 1 (quiet 200) [check_B, check_A] = [check_A] \<and>
   check_B \<in> set [check_B, check_A] \<and> claimable (quiet 200) check_B \<and>
   status check_A = ''up'' \<and> is_enabled check_A \<and> deleted_at check_A = None \<and>
   ping_key check_A \<le> ping_key check_B"
proof -
  have sel: "timedOutRows 1 (quiet 200) [check_B, check_A] = [check_A]"
    by (simp add: sample_defs query_defs)
  have b: "check_B \<in> set [check_B, check_A]" "claimable (quiet 200) check_B"
    "check_B \<notin> set (timedOutRows 1 (quiet 200) [check_B, check_A])"
    unfolding sel by (simp_all add: sample_defs query_defs)
  have a: "check_A \<in> set (timedOutRows 1 (quiet 200) [check_B, check_A])"
    unfolding sel by simp
  note t = scan_selection [of 1 "quiet 200" "[check_B, check_A]"]
  from t a have "status check_A = ''up'' \<and> is_enabled check_A \<and> deleted_at check_A = None"
    by blast
  moreover from t a b have "ping_key check_A \<le> ping_key check_B"
    by blast
  ultimately show ?thesis using sel b by blast
qed

text \<open>
  Counterexample to C2 as stated: a check last pinged at 0 with an interval of 60 and no
  grace satisfies the stated predicate at clock value 60 (\<open>now >= last_ping_at +
  expected_interval + grace_period\<close>), and the pass at that instant selects nothing and
  leaves the check \<open>up\<close>.
\<close>

theorem scan_selection_boundary_counterexample:
  "spec_overdue 60 (sample_row 1 ''a'' (Some 0) 60 ''up'') \<and>
   timedOutQuery 10 (quiet 60) (checks db_one) = [] \<and>
   processTimeouts cfg10 (quiet 60) db_one = (None, db_one, [], [])"
  by (simp add: spec_overdue_def sample_defs query_defs pass_defs)

section \<open>What a scan pass does\<close>

lemma dispatchLines_append: "dispatchLines (xs @ ys) = dispatchLines xs @ dispatchLines ys"
  by (induction xs rule: dispatchLines.induct) simp_all

lemma dispatchLines_downLines: "dispatchLines (downLines ids) = ids"
  by (induction ids) (simp_all add: downLines_def)

lemma downLines_Cons: "downLines (i # ids) = [LogMarkedDown i, LogDispatched i] @ downLines ids"
  by (simp add: downLines_def)

lemma setDown_member:
  "setDown e i (map (\<lambda>r. if row_id r \<in> S then downRow e r else r) cs)
   = map (\<lambda>r. if row_id r \<in> insert i S then downRow e r else r) cs"
  by (induction cs) (auto simp: setDown_def downRow_def)

lemma markDown_general:
  "markDown e ids (map (\<lambda>r. if row_id r \<in> S then downRow e r else r) cs) lg calls =
     (case List.find (\<lambda>i. i \<in> set (update_fails e)) ids of
        None \<Rightarrow> (Inr (map (\<lambda>r. if row_id r \<in> S \<union> set ids then downRow e r else r) cs),
                 lg @ downLines ids, calls)
      | Some i \<Rightarrow> (Inl (ErrUpdateStatus i),
                 lg @ downLines (takeWhile (\<lambda>i. i \<notin> set (update_fails e)) ids), calls))"
proof (induction ids arbitrary: S lg)
  case Nil
  then show ?case by (simp add: downLines_def)
next
  case (Cons i ids)
  show ?case
  proof (cases "i \<in> set (update_fails e)")
    case True
    then show ?thesis by (simp add: downLines_def)
  next
    case False
    from False have "markDown e (i # ids) (map (\<lambda>r. if row_id r \<in> S then downRow e r else r) cs) lg calls
      = markDown e ids (map (\<lambda>r. if row_id r \<in> insert i S then downRow e r else r) cs)
          (lg @ [LogMarkedDown i, LogDispatched i]) calls"
      by (simp add: setDown_member)
    also note Cons.IH
    finally show ?thesis using False
      by (simp add: downLines_Cons cong: option.case_cong)
  qed
qed

lemma markDown_eq:
  "markDown e ids cs lg calls =
     (case List.find (\<lambda>i. i \<in> set (update_fails e)) ids of
        None \<Rightarrow> (Inr (map (\<lambda>r. if row_id r \<in> set ids then downRow e r else r) cs),
                 lg @ downLines ids, calls)
      | Some i \<Rightarrow> (Inl (ErrUpdateStatus i),
                 lg @ downLines (takeWhile (\<lambda>i. i \<notin> set (update_fails e)) ids), calls))"
  using markDown_general [of e ids "{}" cs lg calls] by (simp cong: option.case_cong)

lemma processTimeouts_eq:
  "processTimeouts cfg e db =
     (let rows = timedOutRows (nat (BatchSize cfg)) e (checks db);
          found = timedOutQuery (nat (BatchSize cfg)) e (checks db);
          ids = map row_id rows
      in
      if begin_fails e then (Some ErrBeginTx, db, [], [])
      else if select_fails e \<or> BatchSize cfg < 0 then (Some ErrQueryTimedOut, db, [], [])
      else if (case scan_fails_at e of None \<Rightarrow> False | Some k \<Rightarrow> k < length rows)
        then (Some ErrScanRow, db, [], [])
      else if rows_err e then (Some ErrRowsIter, db, [], [])
      else if rows = []
        then (if commit_fails e then (Some ErrCommitEmpty, db, [], []) else (None, db, [], []))
      else
        (case List.find (\<lambda>i. i \<in> set (update_fails e)) ids of
           Some i \<Rightarrow>
             (Some (ErrUpdateStatus i), db,
              LogFound (length rows) found #
                downLines (takeWhile (\<lambda>i. i \<notin> set (update_fails e)) ids), [])
         | None \<Rightarrow>
             if commit_fails e
             then (Some ErrCommitBatch, db, LogFound (length rows) found # downLines ids, [])
             else (None,
                   db\<lparr>checks := map (\<lambda>r. if row_id r \<in> set ids then downRow e r else r) (checks db)\<rparr>,
                   LogFound (length rows) found # downLines ids @ [LogBatchDone (length rows)],
                   [])))"
  unfolding processTimeouts_def Let_def markDown_eq map_fst_timedOutQuery
    length_timedOutQuery
  by (auto simp: timedOutQuery_Nil split: option.splits)

lemma pass_calls_nil: "pass_calls (processTimeouts cfg e db) = []"
  by (simp add: processTimeouts_eq pass_calls_def Let_def split: option.splits)

lemma pass_rollback:
  "pass_err (processTimeouts cfg e db) \<noteq> None \<Longrightarrow> pass_db (processTimeouts cfg e db) = db"
  by (auto simp: processTimeouts_eq pass_err_def pass_db_def Let_def split: option.splits if_splits)

lemma pass_success:
  assumes "pass_err (processTimeouts cfg e db) = None"
  shows "pass_db (processTimeouts cfg e db) =
           db\<lparr>checks := map (\<lambda>r. if row_id r \<in> row_id ` set (timedOutRows (nat (BatchSize cfg)) e (checks db))
                     then downRow e r else r) (checks db)\<rparr>"
    and "dispatchLines (pass_log (processTimeouts cfg e db)) =
           map row_id (timedOutRows (nat (BatchSize cfg)) e (checks db))"
  using assms
  by (auto simp: processTimeouts_eq pass_err_def pass_db_def pass_log_def Let_def
        dispatchLines_append dispatchLines_downLines
      split: option.splits if_splits)

lemma pass_db_one:
  "processTimeouts cfg10 (quiet 200) db_one =
     (None, \<lparr>checks = [sample_row 1 ''a'' (Some 0) 60 ''down''\<lparr>updated_at := 200\<rparr>], pings = []\<rparr>,
      [LogFound 1 [(1, ''a'')], LogMarkedDown 1, LogDispatched 1, LogBatchDone 1], [])"
  by (simp add: sample_defs query_defs pass_defs)



text \<open>
  C3, as the code has it.  A pass that commits makes no call to a notification
  dispatcher.  What it emits for the checks it moved to \<open>down\<close> is the log line
  \<open>Dispatched 'down' notification task\<close>: the ids of these lines are the ids of the
  selected rows, in the order of selection; the rows of the table with one of these ids
  are the rows moved to \<open>down\<close>; and where ids are unique no id has two lines.
\<close>

theorem pass_dispatch_log_lines:
  assumes "pass_err (processTimeouts cfg e db) = None"
  shows "pass_calls (processTimeouts cfg e db) = [] \<and>
         dispatchLines (pass_log (processTimeouts cfg e db)) =
           map row_id (timedOutRows (nat (BatchSize cfg)) e (checks db)) \<and>
         checks (pass_db (processTimeouts cfg e db)) =
           map (\<lambda>r. if row_id r \<in> set (dispatchLines (pass_log (processTimeouts cfg e db)))
                     then downRow e r else r) (checks db) \<and>
         (distinct (map row_id (checks db)) \<longrightarrow>
            distinct (dispatchLines (pass_log (processTimeouts cfg e db))))"
  using pass_success [OF assms] pass_calls_nil [of cfg e db]
    distinct_ids_timedOutRows [of "checks db" "nat (BatchSize cfg)" e]
  by simp

text \<open>Witness for C3: one overdue check, one pass, one line.\<close>

theorem pass_dispatch_log_lines_witness:
  "pass_err (processTimeouts cfg10 (quiet 200) db_one) = None \<and>
   pass_calls (processTimeouts cfg10 (quiet 200) db_one) = [] \<and>
   dispatchLines (pass_log (processTimeouts cfg10 (quiet 200) db_one)) = [1] \<and>
   distinct (map row_id (checks db_one)) \<and>
   distinct (dispatchLines (pass_log (processTimeouts cfg10 (quiet 200) db_one)))"
proof -
  have h: "pass_err (processTimeouts cfg10 (quiet 200) db_one) = None"
    by (simp add: pass_db_one pass_err_def)
  have d: "distinct (map row_id (checks db_one))"
    by (simp add: db_one_def sample_row_def)
  have r: "map row_id (timedOutRows (nat (BatchSize cfg10)) (quiet 200) (checks db_one)) = [1]"
    by (simp add: sample_defs query_defs)
  from pass_dispatch_log_lines [OF h] h d r show ?thesis by simp
qed

text \<open>
  Counterexample to C3 as stated: the pass over one overdue check commits the check as
  \<open>down\<close>, writes its four log lines and calls no dispatcher, so the number of handoff
  calls for check 1 is not one.
\<close>

theorem pass_handoff_counterexample:
  "processTimeouts cfg10 (quiet 200) db_one =
     (None, \<lparr>checks = [sample_row 1 ''a'' (Some 0) 60 ''down''\<lparr>updated_at := 200\<rparr>], pings = []\<rparr>,
      [LogFound 1 [(1, ''a'')], LogMarkedDown 1, LogDispatched 1, LogBatchDone 1], []) \<and>
   count_list (pass_calls (processTimeouts cfg10 (quiet 200) db_one)) 1 \<noteq> 1"
  by (simp add: pass_db_one pass_calls_def)




text \<open>
  C5.  When no check of the table satisfies the \<open>WHERE\<close> clause, a pass leaves the
  database as it was, logs nothing (no dispatch line) and calls no dispatcher, whatever
  the server does; and when the transaction begins and the query runs, the pass ends in
  the commit of the empty transaction and returns what the commit returns: success
  unless the commit itself fails.
\<close>

theorem empty_pass_noop:
  assumes "\<forall>r \<in> set (checks db). \<not> timedOut (now e) r"
  shows "pass_db (processTimeouts cfg e db) = db \<and>
         pass_log (processTimeouts cfg e db) = [] \<and>
         pass_calls (processTimeouts cfg e db) = [] \<and>
         (\<not> begin_fails e \<and> \<not> select_fails e \<and> 0 \<le> BatchSize cfg \<and> \<not> rows_err e \<longrightarrow>
            pass_err (processTimeouts cfg e db) =
              (if commit_fails e then Some ErrCommitEmpty else None))"
proof -
  have "filter (claimable e) (checks db) = []"
    using assms by (auto simp: claimable_def filter_empty_conv)
  then have "timedOutRows (nat (BatchSize cfg)) e (checks db) = []"
    by (simp add: timedOutRows_def)
  then show ?thesis
    by (auto simp: processTimeouts_eq pass_err_def pass_db_def pass_log_def pass_calls_def Let_def
          split: option.splits)
qed

text \<open>Witness for C5: one check pinged 50 seconds ago and one never pinged.\<close>

theorem empty_pass_noop_witness:
  "list_all (\<lambda>r. \<not> timedOut (now (quiet 200)) r) (checks db_fresh) \<and>
   processTimeouts cfg10 (quiet 200) db_fresh = (None, db_fresh, [], [])"
proof -
  have h: "\<forall>r \<in> set (checks db_fresh). \<not> timedOut (now (quiet 200)) r"
    by (simp add: db_fresh_def sample_defs timedOut_def)
  have "fst (processTimeouts cfg10 (quiet 200) db_fresh) = None"
    using empty_pass_noop [OF h, of cfg10] by (simp add: pass_err_def quiet_def cfg10_def)
  moreover have "snd (processTimeouts cfg10 (quiet 200) db_fresh) = (db_fresh, [], [])"
    using empty_pass_noop [OF h, of cfg10]
    by (simp add: pass_db_def pass_log_def pass_calls_def prod_eq_iff)
  ultimately show ?thesis using h by (simp add: prod_eq_iff list_all_iff)
qed

section \<open>The scanner loop\<close>

lemma loggedErrors_append: "loggedErrors (xs @ ys) = loggedErrors xs @ loggedErrors ys"
  by (induction xs rule: loggedErrors.induct) simp_all

lemma downLines_quiet:
  "count_list (downLines ids) LogTick = 0" "loggedErrors (downLines ids) = []"
  by (induction ids) (simp_all add: downLines_def)

lemma pass_log_quiet:
  "count_list (pass_log (processTimeouts cfg e db)) LogTick = 0"
  "loggedErrors (pass_log (processTimeouts cfg e db)) = []"
  by (auto simp: processTimeouts_eq pass_log_def Let_def downLines_quiet loggedErrors_append
        split: option.splits)

lemma select_loop_eq:
  "\<exists>lg'. select_loop cfg es cd db lg =
           (runPasses cfg cd (ticksBefore es) db, lg @ lg', Done \<in> set es) \<and>
         count_list lg' LogTick = length (ticksBefore es) \<and>
         loggedErrors lg' = passErrors cfg cd (ticksBefore es) db"
proof (induction cfg es cd db lg rule: select_loop.induct)
  case (1 cfg cd db lg)
  then show ?case by simp
next
  case (2 cfg es cd db lg)
  then show ?case by simp
next
  case (3 cfg e c es cd db lg)
  let ?e = "under_ctx (ctx_in_pass cd c) cfg e db"
  obtain err db' plg calls where p: "processTimeouts cfg ?e db = (err, db', plg, calls)"
    by (cases "processTimeouts cfg ?e db") auto
  let ?mine = "[LogTick] @ plg @ (case err of None \<Rightarrow> [] | Some x \<Rightarrow> [LogPassError x])"
  from 3 [OF p [symmetric] refl refl] obtain lg' where
    ih: "select_loop cfg es (cd \<or> c \<noteq> None) db' (lg @ ?mine) =
           (runPasses cfg (cd \<or> c \<noteq> None) (ticksBefore es) db', (lg @ ?mine) @ lg',
            Done \<in> set es)"
      "count_list lg' LogTick = length (ticksBefore es)"
      "loggedErrors lg' = passErrors cfg (cd \<or> c \<noteq> None) (ticksBefore es) db'"
    by blast
  have q: "count_list plg LogTick = 0" "loggedErrors plg = []"
    using pass_log_quiet [of cfg ?e db] by (simp_all add: p pass_log_def)
  have "select_loop cfg (Tick e c # es) cd db lg =
          (runPasses cfg cd (ticksBefore (Tick e c # es)) db, lg @ (?mine @ lg'),
           Done \<in> set (Tick e c # es))"
    using ih(1) by (simp add: p pass_db_def)
  moreover have "count_list (?mine @ lg') LogTick = length (ticksBefore (Tick e c # es))"
    using ih(2) q by (simp split: option.splits)
  moreover have "loggedErrors (?mine @ lg') = passErrors cfg cd (ticksBefore (Tick e c # es)) db"
    using ih(3) q by (simp add: p pass_db_def pass_err_def loggedErrors_append split: option.splits)
  ultimately show ?case by blast
qed

lemma ticksBefore_all: "Done \<notin> set es \<Longrightarrow> length (ticksBefore es) = length es"
  by (induction es rule: ticksBefore.induct) simp_all

lemma commit_fails_err: "commit_fails e \<Longrightarrow> pass_err (processTimeouts cfg e db) \<noteq> None"
  by (auto simp: processTimeouts_eq pass_err_def Let_def split: option.splits)

lemma under_ctx_commit:
  "k \<le> 2 + length (timedOutQuery (nat (BatchSize cfg)) e (checks db)) \<Longrightarrow>
     commit_fails (under_ctx (Some k) cfg e db)"
  by (simp add: under_ctx_def Let_def)

lemma cancelled_pass:
  assumes "k \<le> 2 + length (timedOutQuery (nat (BatchSize cfg)) e (checks db))"
  shows "pass_err (processTimeouts cfg (under_ctx (Some k) cfg e db) db) \<noteq> None"
    and "pass_db (processTimeouts cfg (under_ctx (Some k) cfg e db) db) = db"
proof -
  show "pass_err (processTimeouts cfg (under_ctx (Some k) cfg e db) db) \<noteq> None"
    using under_ctx_commit [OF assms] by (rule commit_fails_err)
  then show "pass_db (processTimeouts cfg (under_ctx (Some k) cfg e db) db) = db"
    by (rule pass_rollback)
qed

text \<open>
  C6, as the code has it.  With a positive poll interval \<open>Start\<close> enters its loop, and
  for every schedule of receptions and whatever the passes return: \<open>Start\<close> has
  returned exactly when the schedule contains the reception of \<open>ctx.Done()\<close>, so no
  error of a pass ends the loop and its only exit is the \<open>select\<close>, between passes;
  the database it leaves is the one left by the whole passes of the ticks received
  before that; every such tick ran a pass; the errors logged are the errors those passes
  returned; and without \<open>Done\<close> every reception of the schedule is a tick that ran.
  The cancellation itself is not kept out of the unit of work: a pass during which the
  context is cancelled, before any of its database calls up to the commit, returns an
  error and leaves the database as it was before the pass.
\<close>

theorem scanner_loop:
  assumes "0 < PollInterval cfg"
  shows "Start cfg es db = Inr (select_loop cfg es False db [LogStarting]) \<and>
         loop_returned (select_loop cfg es False db [LogStarting]) = (Done \<in> set es) \<and>
         loop_db (select_loop cfg es False db [LogStarting]) =
           runPasses cfg False (ticksBefore es) db \<and>
         count_list (loop_log (select_loop cfg es False db [LogStarting])) LogTick =
           length (ticksBefore es) \<and>
         loggedErrors (loop_log (select_loop cfg es False db [LogStarting])) =
           passErrors cfg False (ticksBefore es) db \<and>
         (Done \<notin> set es \<longrightarrow> length (ticksBefore es) = length es) \<and>
         (\<forall>e k. k \<le> 2 + length (timedOutQuery (nat (BatchSize cfg)) e (checks db)) \<longrightarrow>
            pass_err (processTimeouts cfg (under_ctx (Some k) cfg e db) db) \<noteq> None \<and>
            pass_db (processTimeouts cfg (under_ctx (Some k) cfg e db) db) = db)"
proof -
  obtain lg' where
    "select_loop cfg es False db [LogStarting] =
       (runPasses cfg False (ticksBefore es) db, [LogStarting] @ lg', Done \<in> set es)"
    "count_list lg' LogTick = length (ticksBefore es)"
    "loggedErrors lg' = passErrors cfg False (ticksBefore es) db"
    using select_loop_eq by blast
  then have "Start cfg es db = Inr (select_loop cfg es False db [LogStarting]) \<and>
         loop_returned (select_loop cfg es False db [LogStarting]) = (Done \<in> set es) \<and>
         loop_db (select_loop cfg es False db [LogStarting]) =
           runPasses cfg False (ticksBefore es) db \<and>
         count_list (loop_log (select_loop cfg es False db [LogStarting])) LogTick =
           length (ticksBefore es) \<and>
         loggedErrors (loop_log (select_loop cfg es False db [LogStarting])) =
           passErrors cfg False (ticksBefore es) db \<and>
         (Done \<notin> set es \<longrightarrow> length (ticksBefore es) = length es)"
    using assms ticksBefore_all [of es]
    by (simp add: Start_def loop_db_def loop_log_def loop_returned_def)
  with cancelled_pass show ?thesis by blast
qed

text \<open>
  Witness for C6: the first pass fails on its update and is logged, the second pass runs
  and commits, \<open>ctx.Done()\<close> is then received and the tick after it runs nothing; and a
  pass over the same check that finds the context done at its \<open>UPDATE\<close> is rolled back.
\<close>

theorem scanner_loop_witness:
  "0 < PollInterval cfg10 \<and>
   Start cfg10 schedule db_one = Inr (select_loop cfg10 schedule False db_one [LogStarting]) \<and>
   loop_returned (select_loop cfg10 schedule False db_one [LogStarting]) \<and>
   count_list (loop_log (select_loop cfg10 schedule False db_one [LogStarting])) LogTick = 2 \<and>
   loggedErrors (loop_log (select_loop cfg10 schedule False db_one [LogStarting]))
     = [ErrUpdateStatus 1] \<and>
   map status (checks (loop_db (select_loop cfg10 schedule False db_one [LogStarting])))
     = [''down''] \<and>
   2 \<le> 2 + length (timedOutQuery (nat (BatchSize cfg10)) (quiet 200) (checks db_one)) \<and>
   pass_err (processTimeouts cfg10 (under_ctx (Some 2) cfg10 (quiet 200) db_one) db_one) \<noteq> None \<and>
   pass_db (processTimeouts cfg10 (under_ctx (Some 2) cfg10 (quiet 200) db_one) db_one) = db_one"
proof -
  have h: "0 < PollInterval cfg10" by (simp add: cfg10_def)
  have d: "Done \<in> set schedule" by (simp add: schedule_def)
  have tb: "ticksBefore schedule = [(failing_update 200 1, None), (quiet 230, None)]"
    by (simp add: schedule_def)
  have p1: "processTimeouts cfg10 (failing_update 200 1) db_one =
              (Some (ErrUpdateStatus 1), db_one, [LogFound 1 [(1, ''a'')]], [])"
    by (simp add: sample_defs query_defs pass_defs)
  have p2: "processTimeouts cfg10 (quiet 230) db_one =
     (None, \<lparr>checks = [sample_row 1 ''a'' (Some 0) 60 ''down''\<lparr>updated_at := 230\<rparr>], pings = []\<rparr>,
      [LogFound 1 [(1, ''a'')], LogMarkedDown 1, LogDispatched 1, LogBatchDone 1], [])"
    by (simp add: sample_defs query_defs pass_defs)
  have pe: "passErrors cfg10 False (ticksBefore schedule) db_one = [ErrUpdateStatus 1]"
    unfolding tb by (simp add: under_ctx_def ctx_in_pass_def p1 p2 pass_err_def pass_db_def)
  have rp: "map status (checks (runPasses cfg10 False (ticksBefore schedule) db_one)) = [''down'']"
    unfolding tb by (simp add: under_ctx_def ctx_in_pass_def p1 p2 pass_db_def sample_row_def)
  have n: "length (ticksBefore schedule) = 2" unfolding tb by simp
  have k: "2 \<le> 2 + length (timedOutQuery (nat (BatchSize cfg10)) (quiet 200) (checks db_one))"
    by simp
  note t = scanner_loop [OF h, of schedule db_one]
  from t k have c:
    "pass_err (processTimeouts cfg10 (under_ctx (Some 2) cfg10 (quiet 200) db_one) db_one) \<noteq> None \<and>
     pass_db (processTimeouts cfg10 (under_ctx (Some 2) cfg10 (quiet 200) db_one) db_one) = db_one"
    by blast
  from t h d pe rp n k c show ?thesis by simp
qed

text \<open>
  Counterexample to C6 as stated: one overdue check, a tick, and the context cancelled
  while the pass of that tick runs, after \<open>BeginTx\<close> and the query and before the
  \<open>UPDATE\<close>.  Left alone the pass commits the check as \<open>down\<close>; cancelled there, its
  \<open>UPDATE\<close> fails, the pass is rolled back and \<open>Start\<close> returns with the check still
  \<open>up\<close>: the cancellation was observed in the middle of the unit of work.
\<close>

theorem cancellation_mid_pass_counterexample:
  "processTimeouts cfg10 (under_ctx None cfg10 (quiet 200) db_one) db_one =
     (None, \<lparr>checks = [sample_row 1 ''a'' (Some 0) 60 ''down''\<lparr>updated_at := 200\<rparr>], pings = []\<rparr>,
      [LogFound 1 [(1, ''a'')], LogMarkedDown 1, LogDispatched 1, LogBatchDone 1], []) \<and>
   processTimeouts cfg10 (under_ctx (Some 2) cfg10 (quiet 200) db_one) db_one =
     (Some (ErrUpdateStatus 1), db_one, [LogFound 1 [(1, ''a'')]], []) \<and>
   Start cfg10 schedule_cancel db_one =
     Inr (db_one,
          [LogStarting, LogTick, LogFound 1 [(1, ''a'')], LogPassError (ErrUpdateStatus 1),
           LogStopping],
          True)"
proof -
  have a: "processTimeouts cfg10 (under_ctx None cfg10 (quiet 200) db_one) db_one =
     (None, \<lparr>checks = [sample_row 1 ''a'' (Some 0) 60 ''down''\<lparr>updated_at := 200\<rparr>], pings = []\<rparr>,
      [LogFound 1 [(1, ''a'')], LogMarkedDown 1, LogDispatched 1, LogBatchDone 1], [])"
    by (simp add: under_ctx_def pass_db_one)
  have b: "processTimeouts cfg10 (under_ctx (Some 2) cfg10 (quiet 200) db_one) db_one =
     (Some (ErrUpdateStatus 1), db_one, [LogFound 1 [(1, ''a'')]], [])"
    by (simp add: under_ctx_def Let_def sample_defs query_defs pass_defs)
  have c: "Start cfg10 schedule_cancel db_one =
     Inr (db_one,
          [LogStarting, LogTick, LogFound 1 [(1, ''a'')], LogPassError (ErrUpdateStatus 1),
           LogStopping],
          True)"
    by (simp add: Start_def schedule_cancel_def ctx_in_pass_def b) (simp add: cfg10_def)
  from a b c show ?thesis by blast
qed

section \<open>Recording a ping\<close>

lemma findLive_Some:
  "findLive u cs = Some r \<Longrightarrow> r \<in> set cs \<and> uuid r = u \<and> deleted_at r = None"
  by (auto simp: findLive_def find_Some_iff)

lemma findLive_None:
  "findLive u cs = None \<longleftrightarrow> (\<forall>r \<in> set cs. uuid r = u \<longrightarrow> deleted_at r \<noteq> None)"
  by (auto simp: findLive_def find_None_iff)

lemma findLive_unique:
  "distinct (map uuid cs) \<Longrightarrow> r \<in> set cs \<Longrightarrow> deleted_at r = None \<Longrightarrow> findLive (uuid r) cs = Some r"
proof (induction cs)
  case Nil
  then show ?case by simp
next
  case (Cons c cs)
  show ?case
  proof (cases "c = r")
    case True
    with Cons.prems show ?thesis by (simp add: findLive_def)
  next
    case False
    with Cons.prems have "r \<in> set cs" "uuid c \<noteq> uuid r" by auto
    with Cons show ?thesis by (simp add: findLive_def)
  qed
qed

lemma touch_unique:
  assumes "distinct (map row_id cs)" "r \<in> set cs"
  shows "touch e s (row_id r) cs = map (\<lambda>c. if c = r then touchRow e s c else c) cs"
proof -
  have "inj_on row_id (set cs)" using assms(1) by (simp add: distinct_map)
  then have "\<forall>c \<in> set cs. row_id c = row_id r \<longleftrightarrow> c = r"
    using assms(2) by (auto dest: inj_onD)
  then show ?thesis by (simp add: touch_def)
qed

lemma RecordPing_found:
  assumes "findLive u (checks db) = Some r"
  shows "RecordPing e u ip ua db =
     (if begin_fails e then (Some ErrBeginTx, db)
      else if select_fails e then (Some ErrFindCheck, db)
      else if row_id r \<in> set (update_fails e) then (Some ErrUpdateCheck, db)
      else if insert_fails e then (Some ErrInsertPing, db)
      else if commit_fails e then (Some ErrCommitPing, db)
      else (None, db\<lparr>checks := touch e (ping_status (status r)) (row_id r) (checks db),
                      pings := pings db @ [newPing e (row_id r) ip ua]\<rparr>))"
  using assms by (auto simp: RecordPing_def ping_status_def Let_def)

text \<open>
  C7.  Take a check of the table that is not soft-deleted, in a table whose tokens and
  ids are unique, and ping its token.  The call succeeds exactly when no statement
  fails.  When it returns an error the database is the one before the call.  When it
  succeeds, the check has \<open>last_ping_at\<close> and \<open>updated_at\<close> at the clock value and
  status \<open>up\<close> if it was \<open>new\<close> or \<open>down\<close> and its old status otherwise, every other
  row is as it was, and the table of pings has one more row, for this check, stamped
  with the clock value of the \<open>INSERT\<close>.
\<close>

theorem ping_recorded:
  assumes "r \<in> set (checks db)" "deleted_at r = None"
    and "distinct (map uuid (checks db))" "distinct (map row_id (checks db))"
  shows "(fst (RecordPing e (uuid r) ip ua db) = None \<longleftrightarrow> no_faults e (row_id r)) \<and>
         (fst (RecordPing e (uuid r) ip ua db) \<noteq> None \<longrightarrow>
            snd (RecordPing e (uuid r) ip ua db) = db) \<and>
         (fst (RecordPing e (uuid r) ip ua db) = None \<longrightarrow>
            checks (snd (RecordPing e (uuid r) ip ua db)) =
              map (\<lambda>c. if c = r
                        then c\<lparr>last_ping_at := Some (now e),
                               status := (if status c = ''new'' \<or> status c = ''down''
                                          then ''up'' else status c),
                               updated_at := now e\<rparr>
                        else c) (checks db) \<and>
            pings (snd (RecordPing e (uuid r) ip ua db)) =
              pings db @ [\<lparr>check_id = row_id r, received_at = insert_now e, source_ip = ip,
                            user_agent = ua, payload = None,
                            ping_created_at = insert_now e\<rparr>])"
proof -
  have f: "findLive (uuid r) (checks db) = Some r"
    using assms(1,2,3) by (simp add: findLive_unique)
  have t: "touch e (ping_status (status r)) (row_id r) (checks db) =
           map (\<lambda>c. if c = r then touchRow e (ping_status (status r)) c else c) (checks db)"
    using assms(4,1) by (rule touch_unique)
  have m: "map (\<lambda>c. if c = r then touchRow e (ping_status (status r)) c else c) (checks db) =
           map (\<lambda>c. if c = r
                        then c\<lparr>last_ping_at := Some (now e),
                               status := (if status c = ''new'' \<or> status c = ''down''
                                          then ''up'' else status c),
                               updated_at := now e\<rparr>
                        else c) (checks db)"
    by (rule map_cong) (auto simp: touchRow_def ping_status_def)
  show ?thesis
    unfolding RecordPing_found [OF f] t m
    by (simp add: no_faults_def newPing_def)
qed

text \<open>Witness for C7: a ping on a check that is \<open>down\<close>, beside a check that is \<open>new\<close>.\<close>

theorem ping_recorded_witness:
  "sample_row 1 ''a'' (Some 0) 60 ''down'' \<in> set (checks db_down) \<and>
   deleted_at (sample_row 1 ''a'' (Some 0) 60 ''down'') = None \<and>
   distinct (map uuid (checks db_down)) \<and> distinct (map row_id (checks db_down)) \<and>
   no_faults (quiet 300) 1 \<and>
   fst (RecordPing (quiet 300) ''a'' None (Some ''curl'') db_down) = None \<and>
   map status (checks (snd (RecordPing (quiet 300) ''a'' None (Some ''curl'') db_down)))
     = [''up'', ''new''] \<and>
   map last_ping_at (checks (snd (RecordPing (quiet 300) ''a'' None (Some ''curl'') db_down)))
     = [Some 300, None] \<and>
   length (pings (snd (RecordPing (quiet 300) ''a'' None (Some ''curl'') db_down))) = 1"
proof -
  let ?r = "sample_row 1 ''a'' (Some 0) 60 ''down''"
  have a: "?r \<in> set (checks db_down)" "deleted_at ?r = None"
    "distinct (map uuid (checks db_down))" "distinct (map row_id (checks db_down))"
    by (simp_all add: db_down_def sample_row_def)
  have u: "uuid ?r = ''a''" "row_id ?r = 1" by (simp_all add: sample_row_def)
  have n: "no_faults (quiet 300) 1" by (simp add: no_faults_def quiet_def)
  note t = ping_recorded [OF a, of "quiet 300" None "Some ''curl''", unfolded u]
  from t n have ok: "fst (RecordPing (quiet 300) ''a'' None (Some ''curl'') db_down) = None"
    by blast
  with t have c: "checks (snd (RecordPing (quiet 300) ''a'' None (Some ''curl'') db_down)) =
              map (\<lambda>c. if c = ?r
                        then c\<lparr>last_ping_at := Some (now (quiet 300)),
                               status := (if status c = ''new'' \<or> status c = ''down''
                                          then ''up'' else status c),
                               updated_at := now (quiet 300)\<rparr>
                        else c) (checks db_down)"
    and p: "pings (snd (RecordPing (quiet 300) ''a'' None (Some ''curl'') db_down)) =
              pings db_down @ [\<lparr>check_id = 1, received_at = insert_now (quiet 300),
                            source_ip = None, user_agent = Some ''curl'', payload = None,
                            ping_created_at = insert_now (quiet 300)\<rparr>]"
    by blast+
  have c': "map status (checks (snd (RecordPing (quiet 300) ''a'' None (Some ''curl'') db_down)))
     = [''up'', ''new'']"
    "map last_ping_at (checks (snd (RecordPing (quiet 300) ''a'' None (Some ''curl'') db_down)))
     = [Some 300, None]"
    unfolding c by (simp_all add: db_down_def sample_row_def quiet_def)
  have p': "length (pings (snd (RecordPing (quiet 300) ''a'' None (Some ''curl'') db_down))) = 1"
    unfolding p by (simp add: db_down_def)
  from a n ok c' p' show ?thesis by blast
qed

lemma RecordPing_not_found:
  "fst (RecordPing e u ip ua db) = Some ErrCheckNotFound \<longleftrightarrow>
     \<not> begin_fails e \<and> \<not> select_fails e \<and> findLive u (checks db) = None"
  by (auto simp: RecordPing_def Let_def split: option.splits)

text \<open>
  C8.  \<open>RecordPing\<close> returns \<open>ErrCheckNotFound\<close> exactly when the transaction has
  begun, the lookup has not failed and every row with the token is soft-deleted (no row
  at all included).  For a non-empty token \<open>HandlePing\<close> answers 404 exactly for that
  error, 500 exactly for any other error and 200 exactly for success.
\<close>

theorem ping_not_found:
  "(fst (RecordPing e u ip ua db) = Some ErrCheckNotFound \<longleftrightarrow>
      \<not> begin_fails e \<and> \<not> select_fails e \<and>
      (\<forall>r \<in> set (checks db). uuid r = u \<longrightarrow> deleted_at r \<noteq> None)) \<and>
   (u \<noteq> [] \<longrightarrow>
      (fst (HandlePing e u clientIP userAgent db) = 404 \<longleftrightarrow>
         fst (RecordPing e u (nullString clientIP) (nullString userAgent) db) = Some ErrCheckNotFound) \<and>
      (fst (HandlePing e u clientIP userAgent db) = 500 \<longleftrightarrow>
         (\<exists>err. fst (RecordPing e u (nullString clientIP) (nullString userAgent) db) = Some err \<and>
                err \<noteq> ErrCheckNotFound)) \<and>
      (fst (HandlePing e u clientIP userAgent db) = 200 \<longleftrightarrow>
         fst (RecordPing e u (nullString clientIP) (nullString userAgent) db) = None))"
proof -
  have a: "fst (RecordPing e u ip ua db) = Some ErrCheckNotFound \<longleftrightarrow>
      \<not> begin_fails e \<and> \<not> select_fails e \<and>
      (\<forall>r \<in> set (checks db). uuid r = u \<longrightarrow> deleted_at r \<noteq> None)"
    unfolding RecordPing_not_found findLive_None ..
  have b: "u \<noteq> [] \<longrightarrow>
      (fst (HandlePing e u clientIP userAgent db) = 404 \<longleftrightarrow>
         fst (RecordPing e u (nullString clientIP) (nullString userAgent) db) = Some ErrCheckNotFound) \<and>
      (fst (HandlePing e u clientIP userAgent db) = 500 \<longleftrightarrow>
         (\<exists>err. fst (RecordPing e u (nullString clientIP) (nullString userAgent) db) = Some err \<and>
                err \<noteq> ErrCheckNotFound)) \<and>
      (fst (HandlePing e u clientIP userAgent db) = 200 \<longleftrightarrow>
         fst (RecordPing e u (nullString clientIP) (nullString userAgent) db) = None)"
    by (cases "RecordPing e u (nullString clientIP) (nullString userAgent) db")
       (auto simp: HandlePing_def split: option.splits)
  from a b show ?thesis by blast
qed

text \<open>
  Witness for C8: the token of a soft-deleted check gives 404, and the same request when
  the transaction cannot begin gives 500.
\<close>

theorem ping_not_found_witness:
  "''f'' \<noteq> [] \<and>
   list_all (\<lambda>r. uuid r \<noteq> ''f'' \<or> deleted_at r \<noteq> None) (checks db_deleted) \<and>
   fst (RecordPing (quiet 300) ''f'' (nullString ''10.0.0.5'') (nullString []) db_deleted)
     = Some ErrCheckNotFound \<and>
   fst (HandlePing (quiet 300) ''f'' ''10.0.0.5'' [] db_deleted) = 404 \<and>
   fst (HandlePing ((quiet 300)\<lparr>begin_fails := True\<rparr>) ''f'' ''10.0.0.5'' [] db_deleted) = 500"
proof -
  have u: "''f'' \<noteq> []" by simp
  have d: "\<forall>r \<in> set (checks db_deleted). uuid r = ''f'' \<longrightarrow> deleted_at r \<noteq> None"
    by (simp add: db_deleted_def sample_row_def)
  have q: "\<not> begin_fails (quiet 300) \<and> \<not> select_fails (quiet 300)"
    by (simp add: quiet_def)
  note t = ping_not_found [of "quiet 300" "''f''" "nullString ''10.0.0.5''" "nullString []"
      db_deleted "''10.0.0.5''" "[]"]
  from t d q have nf:
    "fst (RecordPing (quiet 300) ''f'' (nullString ''10.0.0.5'') (nullString []) db_deleted)
       = Some ErrCheckNotFound"
    by blast
  with t u have h: "fst (HandlePing (quiet 300) ''f'' ''10.0.0.5'' [] db_deleted) = 404"
    by blast
  have f: "fst (RecordPing ((quiet 300)\<lparr>begin_fails := True\<rparr>) ''f''
             (nullString ''10.0.0.5'') (nullString []) db_deleted) = Some ErrBeginTx"
    by (simp add: RecordPing_def quiet_def)
  from ping_not_found [of "(quiet 300)\<lparr>begin_fails := True\<rparr>" "''f''"
      "nullString ''10.0.0.5''" "nullString []" db_deleted "''10.0.0.5''" "[]"] u f
  have h5: "fst (HandlePing ((quiet 300)\<lparr>begin_fails := True\<rparr>) ''f'' ''10.0.0.5'' [] db_deleted) = 500"
    by auto
  have l: "list_all (\<lambda>r. uuid r \<noteq> ''f'' \<or> deleted_at r \<noteq> None) (checks db_deleted)"
    using d by (auto simp: list_all_iff)
  from u l nf h h5 show ?thesis by blast
qed

section \<open>What creation stores\<close>

text \<open>
  C9 at a request that supplies \<open>is_enabled = false\<close>: the answer is 201 with a body
  that says \<open>is_enabled = false\<close>, and the row stored has \<open>is_enabled = true\<close>.
\<close>

theorem create_stores_enabled:
  "req_IsEnabled req_disabled = Some False \<and>
   CreateCheck create_ok (Some 1) ''d1b0'' req_disabled db_empty =
     (201,
      Some \<lparr>ID = 7, UserID = 1, UUID = ''d1b0'', Name = ''nightly'', Description = None,
             ExpectedInterval = 60, GracePeriod = 0, LastPingAt = None, Status = ''new'',
             IsEnabled = False, CreatedAt = 0, UpdatedAt = 0\<rparr>,
      \<lparr>checks = [\<lparr>row_id = 7, user_id = 1, uuid = ''d1b0'', name = ''nightly'',
                    description = None, expected_interval = 60, grace_period = 0,
                    last_ping_at = None, status = ''new'', is_enabled = True,
                    deleted_at = None, created_at = 1000, updated_at = 1000\<rparr>],
        pings = []\<rparr>)"
  by (simp add: CreateCheck_def Create_def create_ok_def req_disabled_def db_empty_def Let_def)

text \<open>No call of \<open>Create\<close> stores a disabled check.\<close>

lemma Create_rows_enabled:
  "\<forall>r \<in> set (checks db). is_enabled r \<Longrightarrow>
     \<forall>r \<in> set (checks (snd (Create ce check db))). is_enabled r"
  by (auto simp: Create_def Let_def split: option.splits exec_error.splits)

section \<open>Who writes which status\<close>

text \<open>
  C10.  In a table with unique ids, a ping and a scan pass keep every row in its place
  with its id; a row whose status a ping changes ends \<open>up\<close> and was \<open>new\<close> or
  \<open>down\<close>; a row whose status a scan pass changes ends \<open>down\<close> and was \<open>up\<close>.
\<close>

theorem single_writer_direction:
  assumes "distinct (map row_id (checks db))"
  shows "list_all2 (\<lambda>c c'. row_id c' = row_id c \<and>
             (status c' \<noteq> status c \<longrightarrow>
                status c' = ''up'' \<and> (status c = ''new'' \<or> status c = ''down'')))
           (checks db) (checks (snd (RecordPing e u ip ua db))) \<and>
         list_all2 (\<lambda>c c'. row_id c' = row_id c \<and>
             (status c' \<noteq> status c \<longrightarrow> status c' = ''down'' \<and> status c = ''up''))
           (checks db) (checks (pass_db (processTimeouts cfg e' db)))"
proof -
  have inj: "inj_on row_id (set (checks db))" using assms by (simp add: distinct_map)
  have ping: "list_all2 (\<lambda>c c'. row_id c' = row_id c \<and>
             (status c' \<noteq> status c \<longrightarrow>
                status c' = ''up'' \<and> (status c = ''new'' \<or> status c = ''down'')))
           (checks db) (checks (snd (RecordPing e u ip ua db)))"
  proof (cases "fst (RecordPing e u ip ua db) = None")
    case False
    then have "snd (RecordPing e u ip ua db) = db"
      by (auto simp: RecordPing_def Let_def split: option.splits if_splits)
    then show ?thesis by (simp add: list_all2_same)
  next
    case True
    then obtain r where f: "findLive u (checks db) = Some r"
      by (auto simp: RecordPing_def Let_def split: option.splits if_splits)
    then have r: "r \<in> set (checks db)" using findLive_Some by blast
    from True have c: "checks (snd (RecordPing e u ip ua db)) =
        touch e (ping_status (status r)) (row_id r) (checks db)"
      unfolding RecordPing_found [OF f] by (simp split: if_splits)
    have same: "\<forall>c \<in> set (checks db). row_id c = row_id r \<longrightarrow> c = r"
      using inj r by (auto dest: inj_onD)
    show ?thesis
      unfolding c touch_def list_all2_map2 list_all2_same
      using same by (auto simp: touchRow_def ping_status_def)
  qed
  have scan: "list_all2 (\<lambda>c c'. row_id c' = row_id c \<and>
             (status c' \<noteq> status c \<longrightarrow> status c' = ''down'' \<and> status c = ''up''))
           (checks db) (checks (pass_db (processTimeouts cfg e' db)))"
  proof (cases "pass_err (processTimeouts cfg e' db) = None")
    case False
    then have "pass_db (processTimeouts cfg e' db) = db" by (rule pass_rollback)
    then show ?thesis by (simp add: list_all2_same)
  next
    case True
    let ?rows = "timedOutRows (nat (BatchSize cfg)) e' (checks db)"
    have up: "\<forall>c \<in> set (checks db). row_id c \<in> row_id ` set ?rows \<longrightarrow> status c = ''up''"
    proof (intro ballI impI)
      fix c assume c: "c \<in> set (checks db)" "row_id c \<in> row_id ` set ?rows"
      then obtain s where s: "s \<in> set ?rows" "row_id s = row_id c" by auto
      then have "s \<in> set (checks db)" "claimable e' s" using timedOutRows_subset by auto
      with inj c(1) s(2) have "s = c" by (auto dest: inj_onD)
      with \<open>claimable e' s\<close> show "status c = ''up''" by (simp add: claimable_def timedOut_def)
    qed
    have c: "checks (pass_db (processTimeouts cfg e' db)) =
        map (\<lambda>r. if row_id r \<in> row_id ` set ?rows then downRow e' r else r) (checks db)"
      using pass_success(1) [OF True] by simp
    show ?thesis
      unfolding c list_all2_map2 list_all2_same
      using up by (auto simp: downRow_def)
  qed
  from ping scan show ?thesis ..
qed

text \<open>Witness for C10: a ping and a pass over a check that is \<open>down\<close> and one that is \<open>up\<close>.\<close>

theorem single_writer_direction_witness:
  "distinct (map row_id (checks db_mixed)) \<and>
   map status (checks db_mixed) = [''down'', ''up''] \<and>
   map status (checks (snd (RecordPing (quiet 300) ''a'' None None db_mixed))) = [''up'', ''up''] \<and>
   map status (checks (pass_db (processTimeouts cfg10 (quiet 300) db_mixed))) = [''down'', ''down''] \<and>
   list_all2 (\<lambda>c c'. row_id c' = row_id c)
     (checks db_mixed) (checks (snd (RecordPing (quiet 300) ''a'' None None db_mixed))) \<and>
   list_all2 (\<lambda>c c'. row_id c' = row_id c)
     (checks db_mixed) (checks (pass_db (processTimeouts cfg10 (quiet 300) db_mixed)))"
proof -
  have d: "distinct (map row_id (checks db_mixed))"
    by (simp add: db_mixed_def sample_row_def)
  have s0: "map status (checks db_mixed) = [''down'', ''up'']"
    by (simp add: db_mixed_def sample_row_def)
  have s1: "map status (checks (snd (RecordPing (quiet 300) ''a'' None None db_mixed))) = [''up'', ''up'']"
    by (simp add: RecordPing_def findLive_def touch_def touchRow_def db_mixed_def
          sample_row_def quiet_def Let_def)
  have s2: "map status (checks (pass_db (processTimeouts cfg10 (quiet 300) db_mixed))) = [''down'', ''down'']"
    by (simp add: db_mixed_def sample_defs query_defs pass_defs)
  note t = single_writer_direction [OF d, of "quiet 300" "''a''" None None cfg10 "quiet 300"]
  from t have
    "list_all2 (\<lambda>c c'. row_id c' = row_id c)
       (checks db_mixed) (checks (snd (RecordPing (quiet 300) ''a'' None None db_mixed)))"
    "list_all2 (\<lambda>c c'. row_id c' = row_id c)
       (checks db_mixed) (checks (pass_db (processTimeouts cfg10 (quiet 300) db_mixed)))"
    by (auto elim: list_all2_mono)
  with d s0 s1 s2 show ?thesis by blast
qed

end
